theory Spec2Isabelle
  imports Complex_Main
begin

section \<open>Python strings and the default \<open>str.split\<close>\<close>

text \<open>
  A Python 3 \<open>str\<close> is a sequence of Unicode code points, and \<open>len\<close> counts code
  points. A string is therefore a list of code points, each a natural number.
\<close>

type_synonym pystr = "nat list"

text \<open>Reading an ASCII literal as a Python string.\<close>

definition str :: "string \<Rightarrow> pystr" where
  "str cs = map of_char cs"

text \<open>
  \<open>str.isspace\<close> on one code point: TAB to CR, FS to US, SPACE, NEL, NBSP, OGHAM SPACE,
  EN QUAD to HAIR SPACE, LINE and PARAGRAPH SEPARATOR, NNBSP, MMSP, IDEOGRAPHIC SPACE.
\<close>

definition isspace :: "nat \<Rightarrow> bool" where
  "isspace c \<longleftrightarrow>
     (9 \<le> c \<and> c \<le> 13) \<or> (28 \<le> c \<and> c \<le> 32) \<or> c = 133 \<or> c = 160 \<or> c = 5760 \<or>
     (8192 \<le> c \<and> c \<le> 8202) \<or> c = 8232 \<or> c = 8233 \<or> c = 8239 \<or> c = 8287 \<or> c = 12288"

abbreviation nonspace :: "nat \<Rightarrow> bool" where
  "nonspace \<equiv> (\<lambda>c. \<not> isspace c)"

text \<open>
  \<open>s.split()\<close> with no separator: skip a run of whitespace; stop at the end of the string;
  otherwise take the run of non-whitespace that starts there as the next word, and go on
  after it.
\<close>

function str_split :: "pystr \<Rightarrow> pystr list" where
  "str_split s =
     (case dropWhile isspace s of
        [] \<Rightarrow> []
      | c # cs \<Rightarrow> (c # takeWhile nonspace cs) # str_split (dropWhile nonspace cs))"
  by pat_completeness auto
termination
proof (relation "measure length")
  show "wf (measure length)" by simp
next
  fix s :: pystr and c cs
  assume "dropWhile isspace s = c # cs"
  then have "length (c # cs) \<le> length s"
    by (metis length_dropWhile_le)
  moreover have "length (dropWhile nonspace cs) \<le> length cs"
    by (rule length_dropWhile_le)
  ultimately show "(dropWhile nonspace cs, s) \<in> measure length"
    by simp
qed

declare str_split.simps [simp del]

text \<open>
  The first of the two functions that the notebook defines:
  \<^verbatim>\<open>
  def word_count(s):
      return len(s.split())
  \<close>
\<close>

definition word_count :: "pystr \<Rightarrow> nat" where
  "word_count s = length (str_split s)"

text \<open>
  The positions at which a word begins: a non-whitespace code point that is the first of
  the string or follows a whitespace code point. Each maximal run of non-whitespace has
  exactly one such position.
\<close>

definition word_starts :: "pystr \<Rightarrow> nat list" where
  "word_starts s =
     filter (\<lambda>i. nonspace (s ! i) \<and> (i = 0 \<or> isspace (s ! (i - 1)))) [0..<length s]"

text \<open>
  The number of word beginnings met when scanning a string, given whether the code point
  before it was whitespace (or the string starts there).
\<close>

fun starts_after :: "bool \<Rightarrow> pystr \<Rightarrow> nat" where
  "starts_after b [] = 0"
| "starts_after b (c # cs) =
     (if b \<and> nonspace c then 1 else 0) + starts_after (isspace c) cs"

section \<open>Python floats\<close>

text \<open>
  A Python float is an IEEE 754 binary64. The values met here are either NaN or finite
  and of magnitude between 1 and the length of a string, far inside the normal range, so
  a float is NaN or the rational number it denotes, and overflow, subnormals and the sign
  of zero are left out.
\<close>

datatype pyfloat = NaN | Num rat

text \<open>The number of binary digits of a natural number, as \<open>int.bit_length\<close>.\<close>

fun bit_length :: "nat \<Rightarrow> nat" where
  "bit_length n = (if n = 0 then 0 else Suc (bit_length (n div 2)))"

declare bit_length.simps [simp del]

text \<open>The binary exponent of a positive rational: \<open>2 ^ expo q \<le> q < 2 ^ (expo q + 1)\<close>.\<close>

definition expo :: "rat \<Rightarrow> int" where
  "expo q =
     (if 1 \<le> q then int (bit_length (nat \<lfloor>q\<rfloor>)) - 1
      else let j = int (bit_length (nat \<lfloor>1 / q\<rfloor>)) - 1
           in if q * 2 ^ nat j = 1 then - j else - j - 1)"

text \<open>Rounding to the nearest integer, ties to the even one.\<close>

definition round_half_even :: "rat \<Rightarrow> int" where
  "round_half_even q =
     (let f = \<lfloor>q\<rfloor>; r = q - of_int f
      in if r < 1 / 2 then f else if 1 / 2 < r then f + 1 else if even f then f else f + 1)"

text \<open>
  The binary64 nearest to a rational, ties to even: a significand of 53 bits, so the unit
  in the last place of \<open>q\<close> is \<open>2 ^ (expo |q| - 52)\<close>.
\<close>

definition binary64 :: "rat \<Rightarrow> rat" where
  "binary64 q =
     (if q = 0 then 0
      else let ulp = 2 powi (expo \<bar>q\<bar> - 52)
           in of_int (round_half_even (q / ulp)) * ulp)"

text \<open>
  \<open>float(np.mean(ss))\<close> for a list of Python ints: the array is summed in binary64 and the
  sum divided by the number of items; for an empty list the quotient is 0.0 / 0, NaN
  (with a warning, not an exception). A sum of integers is exact in binary64 while it
  stays below \<open>2 ^ 53\<close>, so the sum is the exact one here and the quotient is rounded once.
\<close>

definition np_mean :: "nat list \<Rightarrow> pyfloat" where
  "np_mean ss =
     (if ss = [] then NaN
      else Num (binary64 (of_nat (sum_list ss) / of_nat (length ss))))"

text \<open>
  \<open>round(x, ndigits)\<close> on a float: NaN rounds to itself; a finite \<open>x\<close> is rounded, from
  its exact binary value and with ties to even, to \<open>ndigits\<close> decimals, and the decimal
  result is converted back to the nearest binary64.
\<close>

definition py_round :: "pyfloat \<Rightarrow> nat \<Rightarrow> pyfloat" where
  "py_round x ndigits =
     (case x of
        NaN \<Rightarrow> NaN
      | Num q \<Rightarrow> Num (binary64 (of_int (round_half_even (q * 10 ^ ndigits)) / 10 ^ ndigits)))"

text \<open>
  The second function that the notebook defines:
  \<^verbatim>\<open>
  def word_length(s):
      import numpy as np
      ss = [len(w) for w in s.split()]
      return round(float(np.mean(ss)), 2)
  \<close>
\<close>

definition word_length :: "pystr \<Rightarrow> pyfloat" where
  "word_length s = (let ss = map length (str_split s) in py_round (np_mean ss) 2)"

text \<open>
  The exact arithmetic mean of the word lengths of a text, and the rounding of a rational
  to two decimals (ties to even), as reference values for \<open>word_length\<close>.
\<close>

definition mean_word_length :: "pystr \<Rightarrow> rat" where
  "mean_word_length s =
     of_nat (sum_list (map length (str_split s))) / of_nat (length (str_split s))"

definition round_2dp :: "rat \<Rightarrow> rat" where
  "round_2dp q = of_int (round_half_even (100 * q)) / 100"

text \<open>Rounding to two decimals with ties away from zero, the other common convention.\<close>

definition round_2dp_half_up :: "rat \<Rightarrow> rat" where
  "round_2dp_half_up q = of_int \<lfloor>100 * q + 1 / 2\<rfloor> / 100"

text \<open>
  A review of 40 words, 27 of three letters and 13 of two: the total length is 107 and the
  exact mean word length is 2.675, a tie between 2.67 and 2.68.
\<close>

definition tie_review :: pystr where
  "tie_review = str ''abc abc abc abc abc abc abc abc abc abc abc abc abc abc abc abc abc abc abc abc abc abc abc abc abc abc abc ab ab ab ab ab ab ab ab ab ab ab ab ab''"

section \<open>Errors\<close>

datatype error =
    ValueError | IndexError | TypeError
  | URLError | IsADirectoryError | FileNotFoundError
  | AnalysisException | SparkException

definition and_then :: "error + 'a \<Rightarrow> ('a \<Rightarrow> error + 'b) \<Rightarrow> error + 'b" where
  "and_then m f = (case m of Inl e \<Rightarrow> Inl e | Inr x \<Rightarrow> f x)"

section \<open>Reading the data (cell 2)\<close>

text \<open>
  \<^verbatim>\<open>
  dataFile = "BookReviewsFromAmazon10K.tsv"
  if not os.path.isfile(dataFile):
      urllib.request.urlretrieve("https://mmlspark.azureedge.net/datasets/"+dataFile, dataFile)
  raw_data = spark.createDataFrame(pd.read_csv(dataFile, sep="\t", header=None), textSchema)
  \<close>
  The world is the local file system (a path holds a regular file with its content, a
  directory, or nothing) and the log of the URLs fetched so far. The remote side maps a
  URL to the content it serves, if any.
\<close>

datatype node = File string | Dir

record world =
  files :: "string \<rightharpoonup> node"
  fetched :: "string list"

definition dataFile :: string where
  "dataFile = ''BookReviewsFromAmazon10K.tsv''"

definition dataURL :: string where
  "dataURL = ''https://mmlspark.azureedge.net/datasets/'' @ dataFile"

definition isfile :: "world \<Rightarrow> string \<Rightarrow> bool" where
  "isfile w p = (case files w p of Some (File c) \<Rightarrow> True | Some Dir \<Rightarrow> False | None \<Rightarrow> False)"

text \<open>
  \<open>urlretrieve\<close> opens the URL first, then the local file for writing, and copies.
\<close>

definition urlretrieve ::
  "(string \<rightharpoonup> string) \<Rightarrow> string \<Rightarrow> string \<Rightarrow> world \<Rightarrow> (error + unit) \<times> world" where
  "urlretrieve remote url filename w =
     (let w1 = w\<lparr>fetched := fetched w @ [url]\<rparr>
      in case remote url of
           None \<Rightarrow> (Inl URLError, w1)
         | Some content \<Rightarrow>
             (case files w1 filename of
                Some Dir \<Rightarrow> (Inl IsADirectoryError, w1)
              | Some (File old) \<Rightarrow> (Inr (), w1\<lparr>files := (files w1)(filename \<mapsto> File content)\<rparr>)
              | None \<Rightarrow> (Inr (), w1\<lparr>files := (files w1)(filename \<mapsto> File content)\<rparr>)))"

definition read_csv :: "world \<Rightarrow> string \<Rightarrow> error + string" where
  "read_csv w p =
     (case files w p of
        Some (File content) \<Rightarrow> Inr content
      | Some Dir \<Rightarrow> Inl IsADirectoryError
      | None \<Rightarrow> Inl FileNotFoundError)"

definition read_data :: "(string \<rightharpoonup> string) \<Rightarrow> world \<Rightarrow> (error + string) \<times> world" where
  "read_data remote w =
     (if \<not> isfile w dataFile then
        (case urlretrieve remote dataURL dataFile w of
           (Inl e, w1) \<Rightarrow> (Inl e, w1)
         | (Inr u, w1) \<Rightarrow> (read_csv w1 dataFile, w1))
      else (read_csv w dataFile, w))"

section \<open>Data frames\<close>

text \<open>
  A Spark row maps column names to values; a data frame is a list of rows. IntegerType
  values are 32-bit; ratings and word counts are far inside that range and are only
  compared or widened to double, so they are kept as integers.
\<close>

datatype cell =
    IntC int | DoubleC pyfloat | BoolC bool | StrC pystr
  | ArrC "pystr list" | VecC "pyfloat list"

type_synonym row = "string \<rightharpoonup> cell"
type_synonym dataframe = "row list"

text \<open>A transformation of rows is applied to every row; the job fails if a row fails.\<close>

fun map_rows :: "(row \<Rightarrow> error + row) \<Rightarrow> dataframe \<Rightarrow> error + dataframe" where
  "map_rows f [] = Inr []"
| "map_rows f (r # rs) =
     and_then (f r) (\<lambda>r'. and_then (map_rows f rs) (\<lambda>rs'. Inr (r' # rs')))"

text \<open>Column expressions, evaluated on a row.\<close>

definition column :: "string \<Rightarrow> row \<Rightarrow> error + cell" where
  "column c r = (case r c of None \<Rightarrow> Inl AnalysisException | Some v \<Rightarrow> Inr v)"

definition gt_lit :: "string \<Rightarrow> int \<Rightarrow> row \<Rightarrow> error + cell" where
  "gt_lit c n r =
     and_then (column c r)
       (\<lambda>v. case v of IntC i \<Rightarrow> Inr (BoolC (n < i)) | _ \<Rightarrow> Inl AnalysisException)"

definition cast_int :: "string \<Rightarrow> row \<Rightarrow> error + cell" where
  "cast_int c r =
     and_then (column c r)
       (\<lambda>v. case v of
               BoolC b \<Rightarrow> Inr (IntC (if b then 1 else 0))
             | IntC i \<Rightarrow> Inr (IntC i)
             | _ \<Rightarrow> Inl AnalysisException)"

text \<open>
  \<^verbatim>\<open>
  word_length_udf = udf(word_length, DoubleType())
  word_count_udf = udf(word_count, IntegerType())
  \<close>
\<close>

definition word_length_udf :: "string \<Rightarrow> row \<Rightarrow> error + cell" where
  "word_length_udf c r =
     and_then (column c r)
       (\<lambda>v. case v of StrC s \<Rightarrow> Inr (DoubleC (word_length s)) | _ \<Rightarrow> Inl TypeError)"

definition word_count_udf :: "string \<Rightarrow> row \<Rightarrow> error + cell" where
  "word_count_udf c r =
     and_then (column c r)
       (\<lambda>v. case v of StrC s \<Rightarrow> Inr (IntC (int (word_count s))) | _ \<Rightarrow> Inl TypeError)"

text \<open>\<open>select\<close>, \<open>withColumn\<close> and \<open>drop\<close> on one row.\<close>

fun select :: "(string \<times> (row \<Rightarrow> error + cell)) list \<Rightarrow> row \<Rightarrow> error + row" where
  "select [] r = Inr Map.empty"
| "select ((name, e) # cols) r =
     and_then (e r) (\<lambda>v. and_then (select cols r) (\<lambda>r'. Inr (r'(name \<mapsto> v))))"

definition withColumn :: "string \<Rightarrow> (row \<Rightarrow> error + cell) \<Rightarrow> row \<Rightarrow> error + row" where
  "withColumn name e r = and_then (e r) (\<lambda>v. Inr (r(name \<mapsto> v)))"

definition drop_column :: "string \<Rightarrow> row \<Rightarrow> row" where
  "drop_column name r = r(name := None)"

section \<open>The raw data and the derived columns (cells 2 and 4)\<close>

text \<open>
  \<^verbatim>\<open>
  textSchema = StructType([StructField("rating", IntegerType(), False),
                           StructField("text", StringType(), False)])
  \<close>
\<close>

record review =
  rating :: int
  review_text :: pystr

definition raw_row :: "review \<Rightarrow> row" where
  "raw_row v = [''rating'' \<mapsto> IntC (rating v), ''text'' \<mapsto> StrC (review_text v)]"

definition raw_data :: "review list \<Rightarrow> dataframe" where
  "raw_data reviews = map raw_row reviews"

text \<open>
  \<^verbatim>\<open>
  data = raw_data \
         .select("rating", "text",
                 word_count_udf("text").alias("wordCount"),
                 word_length_udf("text").alias("wordLength")) \
         .withColumn("label", raw_data["rating"] > 3).drop("rating")
  \<close>
\<close>

definition data_row :: "row \<Rightarrow> error + row" where
  "data_row r =
     and_then
       (select [(''rating'', column ''rating''), (''text'', column ''text''),
                (''wordCount'', word_count_udf ''text''),
                (''wordLength'', word_length_udf ''text'')] r)
       (\<lambda>r1. and_then (withColumn ''label'' (gt_lit ''rating'' 3) r1)
          (\<lambda>r2. Inr (drop_column ''rating'' r2)))"

definition data :: "dataframe \<Rightarrow> error + dataframe" where
  "data raw = map_rows data_row raw"

section \<open>Featurization in the pyspark path (cell 4a, first part)\<close>

text \<open>
  The tokenizer and the hashing transformer are Spark's; what they compute is a parameter:
  \<open>tokenize\<close> maps a text to its tokens, \<open>hashingTF n\<close> maps tokens to a vector of size
  \<open>n\<close>. Each reads its input column and adds its output column.
\<close>

definition Tokenizer ::
  "(pystr \<Rightarrow> pystr list) \<Rightarrow> string \<Rightarrow> string \<Rightarrow> row \<Rightarrow> error + row" where
  "Tokenizer tokenize inputCol outputCol r =
     and_then (column inputCol r)
       (\<lambda>v. case v of
               StrC s \<Rightarrow> Inr (r(outputCol \<mapsto> ArrC (tokenize s)))
             | _ \<Rightarrow> Inl AnalysisException)"

definition HashingTF ::
  "(nat \<Rightarrow> pystr list \<Rightarrow> pyfloat list) \<Rightarrow> string \<Rightarrow> string \<Rightarrow> nat \<Rightarrow> row \<Rightarrow> error + row" where
  "HashingTF hashingTF inputCol outputCol numFeatures r =
     and_then (column inputCol r)
       (\<lambda>v. case v of
               ArrC ws \<Rightarrow> Inr (r(outputCol \<mapsto> VecC (hashingTF numFeatures ws)))
             | _ \<Rightarrow> Inl AnalysisException)"

text \<open>
  Spark's \<open>VectorAssembler\<close> merges its input columns, in the order of \<open>inputCols\<close>, into
  one vector: a numeric or boolean column gives one entry (widened to double), a vector
  column gives its entries; strings and arrays are refused. In the Spark release of the
  notebook (2.1) a NaN entry is passed on unchanged.
\<close>

definition as_doubles :: "cell \<Rightarrow> error + pyfloat list" where
  "as_doubles v =
     (case v of
        IntC i \<Rightarrow> Inr [Num (of_int i)]
      | DoubleC x \<Rightarrow> Inr [x]
      | BoolC b \<Rightarrow> Inr [Num (if b then 1 else 0)]
      | VecC xs \<Rightarrow> Inr xs
      | StrC s \<Rightarrow> Inl SparkException
      | ArrC ws \<Rightarrow> Inl SparkException)"

fun assemble :: "string list \<Rightarrow> row \<Rightarrow> error + pyfloat list" where
  "assemble [] r = Inr []"
| "assemble (c # cs) r =
     and_then (column c r)
       (\<lambda>v. and_then (as_doubles v)
          (\<lambda>xs. and_then (assemble cs r) (\<lambda>ys. Inr (xs @ ys))))"

definition VectorAssembler :: "string list \<Rightarrow> string \<Rightarrow> row \<Rightarrow> error + row" where
  "VectorAssembler inputCols outputCol r =
     and_then (assemble inputCols r) (\<lambda>xs. Inr (r(outputCol \<mapsto> VecC xs)))"

text \<open>
  \<^verbatim>\<open>
  tokenizer = Tokenizer(inputCol="text", outputCol="tokenizedText")
  numFeatures = 10000
  hashingScheme = HashingTF(inputCol="tokenizedText",
                            outputCol="TextFeatures",
                            numFeatures=numFeatures)
  tokenizedData = tokenizer.transform(data)
  featurizedData = hashingScheme.transform(tokenizedData)
  feature_columns_array = ["TextFeatures", "wordCount", "wordLength"]
  assembler = VectorAssembler(
      inputCols = feature_columns_array,
      outputCol="features")
  assembledData = assembler.transform(featurizedData)
  \<close>
\<close>

definition numFeatures :: nat where
  "numFeatures = 10000"

definition feature_columns_array :: "string list" where
  "feature_columns_array = [''TextFeatures'', ''wordCount'', ''wordLength'']"

definition assembled_row ::
  "(pystr \<Rightarrow> pystr list) \<Rightarrow> (nat \<Rightarrow> pystr list \<Rightarrow> pyfloat list) \<Rightarrow> row \<Rightarrow> error + row" where
  "assembled_row tokenize hashingTF r =
     and_then (Tokenizer tokenize ''text'' ''tokenizedText'' r)
       (\<lambda>tokenized.
          and_then (HashingTF hashingTF ''tokenizedText'' ''TextFeatures'' numFeatures tokenized)
            (\<lambda>featurized. VectorAssembler feature_columns_array ''features'' featurized))"

definition assembledData ::
  "(pystr \<Rightarrow> pystr list) \<Rightarrow> (nat \<Rightarrow> pystr list \<Rightarrow> pyfloat list) \<Rightarrow> dataframe
     \<Rightarrow> error + dataframe" where
  "assembledData tokenize hashingTF d = map_rows (assembled_row tokenize hashingTF) d"

text \<open>
  \<^verbatim>\<open>
  processedData = assembledData \
                  .select("label", "features") \
                  .withColumn("label", assembledData.label.cast(IntegerType()))
  \<close>
\<close>

definition processed_row :: "row \<Rightarrow> error + row" where
  "processed_row r =
     and_then (select [(''label'', column ''label''), (''features'', column ''features'')] r)
       (withColumn ''label'' (cast_int ''label''))"

definition processedData :: "dataframe \<Rightarrow> error + dataframe" where
  "processedData assembled = map_rows processed_row assembled"

text \<open>
  The row that \<open>data\<close> is expected to hold for a review, and the row that
  \<open>assembledData\<close> is expected to hold for it: the reference values of the two
  computations above.
\<close>

definition derived_row :: "review \<Rightarrow> row" where
  "derived_row v =
     [''text'' \<mapsto> StrC (review_text v),
      ''wordCount'' \<mapsto> IntC (int (word_count (review_text v))),
      ''wordLength'' \<mapsto> DoubleC (word_length (review_text v)),
      ''label'' \<mapsto> BoolC (3 < rating v)]"

definition featurized_row ::
  "(pystr \<Rightarrow> pystr list) \<Rightarrow> (nat \<Rightarrow> pystr list \<Rightarrow> pyfloat list) \<Rightarrow> review \<Rightarrow> row" where
  "featurized_row tokenize hashingTF v =
     (derived_row v)
       (''tokenizedText'' \<mapsto> ArrC (tokenize (review_text v)),
        ''TextFeatures'' \<mapsto> VecC (hashingTF 10000 (tokenize (review_text v))),
        ''features'' \<mapsto> VecC (hashingTF 10000 (tokenize (review_text v)) @
            [Num (of_nat (word_count (review_text v))), word_length (review_text v)]))"

section \<open>Python list operations used to select the best model\<close>

text \<open>
  \<open>max\<close> keeps the first item and replaces it by each later item that is greater;
  \<open>list.index\<close> returns the first position holding an equal item; both raise
  \<open>ValueError\<close> when there is none. Indexing raises \<open>IndexError\<close> out of range.
\<close>

definition py_max :: "rat list \<Rightarrow> error + rat" where
  "py_max xs =
     (case xs of
        [] \<Rightarrow> Inl ValueError
      | x # rest \<Rightarrow> Inr (foldl (\<lambda>m y. if m < y then y else m) x rest))"

fun py_index :: "rat list \<Rightarrow> rat \<Rightarrow> error + nat" where
  "py_index [] v = Inl ValueError"
| "py_index (x # xs) v =
     (if x = v then Inr 0 else and_then (py_index xs v) (\<lambda>i. Inr (Suc i)))"

definition py_getitem :: "'a list \<Rightarrow> nat \<Rightarrow> error + 'a" where
  "py_getitem xs i = (if i < length xs then Inr (xs ! i) else Inl IndexError)"

section \<open>Training and selection in the pyspark path (cell 4a, second part)\<close>

text \<open>
  What Spark computes is a parameter: \<open>randomSplit\<close> with three weights gives three data
  frames; \<open>lr_fit h\<close> is \<open>LogisticRegression(regParam = h).fit\<close>; \<open>transform\<close> scores a
  data frame with a model; \<open>evaluate\<close> is the \<open>BinaryClassificationEvaluator\<close> with
  metric \<open>areaUnderROC\<close>, whose result is a finite number between 0 and 1 and is kept as
  the rational it denotes.
\<close>

record 'm spark_ml =
  randomSplit :: "dataframe \<Rightarrow> rat list \<Rightarrow> nat \<Rightarrow> dataframe \<times> dataframe \<times> dataframe"
  lr_fit :: "rat \<Rightarrow> dataframe \<Rightarrow> 'm"
  transform :: "'m \<Rightarrow> dataframe \<Rightarrow> dataframe"
  evaluate :: "dataframe \<Rightarrow> rat"

text \<open>What a cell leaves behind: the saved model artifacts, by path, and the printed values.\<close>

record 'm session =
  saved :: "string \<rightharpoonup> 'm"
  printed :: "cell list"

definition lrHyperParams :: "rat list" where
  "lrHyperParams = [0.05, 0.1, 0.2, 0.4]"

text \<open>
  \<^verbatim>\<open>
  metrics = []
  models = []
  for learner in logisticRegressions:
      model = learner.fit(train)
      models.append(model)
      scored_data = model.transform(test)
      metrics.append(evaluator.evaluate(scored_data))
  \<close>
\<close>

fun fit_loop ::
  "'m spark_ml \<Rightarrow> dataframe \<Rightarrow> dataframe \<Rightarrow> rat list \<Rightarrow> 'm list \<times> rat list
     \<Rightarrow> 'm list \<times> rat list" where
  "fit_loop L train test [] (models, metrics) = (models, metrics)"
| "fit_loop L train test (learner # learners) (models, metrics) =
     (let model = lr_fit L learner train;
          models1 = models @ [model];
          scored_data = transform L model test;
          metrics1 = metrics @ [evaluate L scored_data]
      in fit_loop L train test learners (models1, metrics1))"

text \<open>
  \<^verbatim>\<open>
  best_metric = max(metrics)
  best_model = models[metrics.index(best_metric)]
  \<close>
\<close>

definition best_index :: "rat list \<Rightarrow> error + nat" where
  "best_index metrics =
     and_then (py_max metrics) (\<lambda>best_metric. py_index metrics best_metric)"

definition best_model :: "'m spark_ml \<Rightarrow> dataframe \<Rightarrow> dataframe \<Rightarrow> error + 'm" where
  "best_model L train test =
     (case fit_loop L train test lrHyperParams ([], []) of
        (models, metrics) \<Rightarrow> and_then (best_index metrics) (\<lambda>i. py_getitem models i))"

text \<open>
  \<^verbatim>\<open>
  train, test, validation = processedData.randomSplit([0.60, 0.20, 0.20], seed=123)
  ...
  best_model.write().overwrite().save("SparkMLExperiment.mmls")
  scored_val = best_model.transform(validation)
  print(evaluator.evaluate(scored_val))
  \<close>
  The result is the session after the cell and the exception that stopped it, if any.
\<close>

definition pyspark_path ::
  "'m spark_ml \<Rightarrow> dataframe \<Rightarrow> 'm session \<Rightarrow> 'm session \<times> error option" where
  "pyspark_path L processed \<sigma> =
     (case randomSplit L processed [0.60, 0.20, 0.20] 123 of
        (train, test, validation) \<Rightarrow>
          (case best_model L train test of
             Inl e \<Rightarrow> (\<sigma>, Some e)
           | Inr best \<Rightarrow>
               (let \<sigma>1 = \<sigma>\<lparr>saved := (saved \<sigma>)(''SparkMLExperiment.mmls'' \<mapsto> best)\<rparr>;
                    scored_val = transform L best validation
                in (\<sigma>1\<lparr>printed := printed \<sigma>1 @ [DoubleC (Num (evaluate L scored_val))]\<rparr>,
                    None))))"

section \<open>The mmlspark path (cell 4b)\<close>

text \<open>
  The estimators of mmlspark are not part of the notebook; what they compute is a
  parameter: \<open>tc_fit h labelCol n\<close> is
  \<open>TrainClassifier(model=LogisticRegression(regParam = h), labelCol, numFeatures=n).fit\<close>,
  \<open>fbm_fit metric models\<close> is \<open>FindBestModel(evaluationMetric, models).fit\<close>,
  \<open>bm_transform\<close> scores a data frame with the best model, \<open>statistics\<close> gives the metrics
  other than the AUC of a scored data frame and \<open>auc\<close> its AUC.
\<close>

record ('t, 'b) mmlspark =
  tc_fit :: "rat \<Rightarrow> string \<Rightarrow> nat \<Rightarrow> dataframe \<Rightarrow> 't"
  fbm_fit :: "string \<Rightarrow> 't list \<Rightarrow> dataframe \<Rightarrow> 'b"
  bm_transform :: "'b \<Rightarrow> dataframe \<Rightarrow> dataframe"
  statistics :: "dataframe \<Rightarrow> row"
  auc :: "dataframe \<Rightarrow> rat"

text \<open>
  Modelled from the spec: \<open>ComputeModelStatistics\<close> of mmlspark, which is not in the
  sources. It is the "statistics computer" of the spec: it turns a scored data frame into
  a data frame of one row holding the metrics, among them the column \<open>AUC\<close>, the "scalar
  AUC value" that the cell prints.
\<close>

definition ComputeModelStatistics :: "('t, 'b) mmlspark \<Rightarrow> dataframe \<Rightarrow> dataframe" where
  "ComputeModelStatistics M scored = [(statistics M scored)(''AUC'' \<mapsto> DoubleC (Num (auc M scored)))]"

text \<open>\<open>df.first()\<close> is the first row or \<open>None\<close>; \<open>row[name]\<close> raises when it cannot look up.\<close>

definition first :: "dataframe \<Rightarrow> row option" where
  "first df = (case df of [] \<Rightarrow> None | r # rs \<Rightarrow> Some r)"

definition getitem :: "row option \<Rightarrow> string \<Rightarrow> error + cell" where
  "getitem r name =
     (case r of
        None \<Rightarrow> Inl TypeError
      | Some rw \<Rightarrow> (case rw name of None \<Rightarrow> Inl ValueError | Some v \<Rightarrow> Inr v))"

text \<open>
  \<^verbatim>\<open>
  train, test, validation = data.randomSplit([0.60, 0.20, 0.20], seed=123)
  lrHyperParams = [0.05, 0.1, 0.2, 0.4]
  logisticRegressions = [LogisticRegression(regParam = hyperParam)
                         for hyperParam in lrHyperParams]
  lrmodels = [TrainClassifier(model=lrm, labelCol="label", numFeatures=10000).fit(train)
              for lrm in logisticRegressions]
  bestModel = FindBestModel(evaluationMetric="AUC", models=lrmodels).fit(test)
  bestModel.write().overwrite().save("MMLSExperiment.mmls")
  predictions = bestModel.transform(validation)
  metrics = ComputeModelStatistics().transform(predictions)
  print(metrics.first()["AUC"])
  \<close>
\<close>

definition mmlspark_path ::
  "'m spark_ml \<Rightarrow> ('t, 'b) mmlspark \<Rightarrow> dataframe \<Rightarrow> 'b session \<Rightarrow> 'b session \<times> error option" where
  "mmlspark_path L M d \<sigma> =
     (case randomSplit L d [0.60, 0.20, 0.20] 123 of
        (train, test, validation) \<Rightarrow>
          (let lrmodels = map (\<lambda>lrm. tc_fit M lrm ''label'' 10000 train) lrHyperParams;
               bestModel = fbm_fit M ''AUC'' lrmodels test;
               \<sigma>1 = \<sigma>\<lparr>saved := (saved \<sigma>)(''MMLSExperiment.mmls'' \<mapsto> bestModel)\<rparr>;
               predictions = bm_transform M bestModel validation;
               metrics = ComputeModelStatistics M predictions
           in case getitem (first metrics) ''AUC'' of
                Inl e \<Rightarrow> (\<sigma>1, Some e)
              | Inr v \<Rightarrow> (\<sigma>1\<lparr>printed := printed \<sigma>1 @ [v]\<rparr>, None)))"

section \<open>Reference values for the two paths\<close>

text \<open>
  The three parts of the split, the models trained on the train part, one per
  hyperparameter and in the order of \<open>lrHyperParams\<close>, and the metric of a model on the
  test part.
\<close>

definition train_of :: "'m spark_ml \<Rightarrow> dataframe \<Rightarrow> dataframe" where
  "train_of L d = fst (randomSplit L d [0.60, 0.20, 0.20] 123)"

definition test_of :: "'m spark_ml \<Rightarrow> dataframe \<Rightarrow> dataframe" where
  "test_of L d = fst (snd (randomSplit L d [0.60, 0.20, 0.20] 123))"

definition validation_of :: "'m spark_ml \<Rightarrow> dataframe \<Rightarrow> dataframe" where
  "validation_of L d = snd (snd (randomSplit L d [0.60, 0.20, 0.20] 123))"

definition trained_models :: "'m spark_ml \<Rightarrow> dataframe \<Rightarrow> 'm list" where
  "trained_models L train = map (\<lambda>h. lr_fit L h train) lrHyperParams"

definition test_metric :: "'m spark_ml \<Rightarrow> dataframe \<Rightarrow> 'm \<Rightarrow> rat" where
  "test_metric L test m = evaluate L (transform L m test)"

text \<open>
  A Spark stand-in with a tie, for trying the selection: the model is its hyperparameter,
  a scored data frame has as many rows as the position of the hyperparameter, and the
  metric is 0.9 for the models of 0.1 and 0.2 and 0.5 for the others.
\<close>

definition tie_example :: "rat spark_ml" where
  "tie_example =
     \<lparr>randomSplit = (\<lambda>d ws seed. (d, d, d)),
      lr_fit = (\<lambda>h d. h),
      transform = (\<lambda>m d. if m = 0.05 then [] else if m = 0.1 then [Map.empty]
                        else if m = 0.2 then [Map.empty, Map.empty]
                        else [Map.empty, Map.empty, Map.empty]),
      evaluate = (\<lambda>d. if length d = 1 \<or> length d = 2 then 0.9 else 0.5)\<rparr>"

text \<open>The model that the mmlspark path selects.\<close>

definition bestModel_of :: "'m spark_ml \<Rightarrow> ('t, 'b) mmlspark \<Rightarrow> dataframe \<Rightarrow> 'b" where
  "bestModel_of L M d =
     fbm_fit M ''AUC'' (map (\<lambda>h. tc_fit M h ''label'' 10000 (train_of L d)) lrHyperParams)
       (test_of L d)"

section \<open>Facts about \<open>str_split\<close>\<close>

lemma str_split_Nil [simp]: "str_split [] = []"
  by (simp add: str_split.simps)

lemma str_split_space [simp]: "isspace c \<Longrightarrow> str_split (c # s) = str_split s"
  by (simp add: str_split.simps [of "c # s"] str_split.simps [of s])

lemma str_split_nonspace [simp]:
  "nonspace c \<Longrightarrow>
   str_split (c # s) = (c # takeWhile nonspace s) # str_split (dropWhile nonspace s)"
  by (simp add: str_split.simps [of "c # s"])

lemma str_split_unfold_Nil:
  assumes "dropWhile isspace s = []"
  shows "str_split s = []"
  by (subst str_split.simps) (simp only: assms list.case)

lemma str_split_unfold_Cons:
  assumes "dropWhile isspace s = c # cs"
  shows "str_split s = (c # takeWhile nonspace cs) # str_split (dropWhile nonspace cs)"
  by (subst str_split.simps) (simp only: assms list.case)

lemma starts_after_spaces:
  "\<forall>c\<in>set xs. isspace c \<Longrightarrow> starts_after True (xs @ ys) = starts_after True ys"
  by (induction xs) auto

lemma starts_after_letters:
  "\<forall>c\<in>set xs. nonspace c \<Longrightarrow> starts_after False (xs @ ys) = starts_after False ys"
  by (induction xs) auto

lemma starts_after_at_space:
  "ys = [] \<or> isspace (hd ys) \<Longrightarrow> starts_after b ys = starts_after True ys"
  by (cases ys) auto

lemma length_str_split: "length (str_split s) = starts_after True s"
proof (induction s rule: str_split.induct)
  case (1 s)
  show ?case
  proof (cases "dropWhile isspace s")
    case Nil
    then have all: "\<forall>c\<in>set s. isspace c"
      by (simp add: dropWhile_eq_Nil_conv)
    have "str_split s = []"
      using Nil by (rule str_split_unfold_Nil)
    moreover from all have "starts_after True (s @ []) = starts_after True []"
      by (rule starts_after_spaces)
    ultimately show ?thesis by simp
  next
    case (Cons c cs)
    let ?w = "takeWhile nonspace cs" and ?r = "dropWhile nonspace cs"
    have c: "nonspace c"
      using Cons hd_dropWhile [of isspace s] by force
    have s: "s = takeWhile isspace s @ c # cs"
      using Cons takeWhile_dropWhile_id [of isspace s] by simp
    have "starts_after True s = starts_after True (takeWhile isspace s @ c # cs)"
      using s by simp
    also have "\<dots> = starts_after True (c # cs)"
      by (rule starts_after_spaces) (auto dest: set_takeWhileD)
    also have "\<dots> = 1 + starts_after False (?w @ ?r)"
      using c by simp
    also have "starts_after False (?w @ ?r) = starts_after False ?r"
      by (rule starts_after_letters) (auto dest: set_takeWhileD)
    also have "\<dots> = starts_after True ?r"
    proof (rule starts_after_at_space)
      show "?r = [] \<or> isspace (hd ?r)"
        using hd_dropWhile [of nonspace cs] by blast
    qed
    also have "\<dots> = length (str_split ?r)"
      using "1.IH" [OF Cons] by simp
    finally have "starts_after True s = 1 + length (str_split ?r)" .
    moreover have "str_split s = (c # ?w) # str_split ?r"
      using Cons by (rule str_split_unfold_Cons)
    ultimately show ?thesis by simp
  qed
qed

lemma length_starts_filter:
  "length (filter (\<lambda>i. nonspace (s ! i) \<and> (if i = 0 then b else isspace (s ! (i - 1))))
      [0..<length s]) = starts_after b s"
proof (induction s arbitrary: b)
  case Nil
  then show ?case by simp
next
  case (Cons c cs)
  have upt: "[0..<length (c # cs)] = 0 # map Suc [0..<length cs]"
    by (simp add: upt_conv_Cons map_Suc_upt del: upt_Suc)
  have "length (filter (\<lambda>i. nonspace ((c # cs) ! i) \<and>
            (if i = 0 then b else isspace ((c # cs) ! (i - 1)))) (map Suc [0..<length cs]))
      = length (filter (\<lambda>i. nonspace (cs ! i) \<and>
            (if i = 0 then isspace c else isspace (cs ! (i - 1)))) [0..<length cs])"
    unfolding filter_map length_map
    by (rule arg_cong [where f = length], rule filter_cong) (auto simp: nth_Cons')
  then show ?case
    unfolding upt using Cons.IH [of "isspace c"] by simp
qed

section \<open>The word count\<close>

text \<open>
  C7. For every review text, the derived wordCount feature, \<open>word_count\<close> of the text, is
  the length of the default \<open>str.split\<close> of the text, and that is the number of maximal
  whitespace-separated words: the number of positions where a non-whitespace code point
  starts the text or follows a whitespace code point.
\<close>

theorem word_count_is_number_of_words:
  "word_count s = length (str_split s) \<and> word_count s = length (word_starts s)"
proof -
  have "word_starts s =
      filter (\<lambda>i. nonspace (s ! i) \<and> (if i = 0 then True else isspace (s ! (i - 1))))
        [0..<length s]"
    unfolding word_starts_def by (rule filter_cong) auto
  then show ?thesis
    by (simp add: word_count_def length_str_split length_starts_filter)
qed

section \<open>The derived columns\<close>

lemma and_then_Inr [simp]: "and_then (Inr x) f = f x"
  by (simp add: and_then_def)

lemma and_then_Inl [simp]: "and_then (Inl e) f = Inl e"
  by (simp add: and_then_def)

lemma map_rows_map:
  assumes "\<And>v. f (h v) = Inr (g v)"
  shows "map_rows f (map h vs) = Inr (map g vs)"
  by (induction vs) (simp_all add: assms)

lemma data_row_raw: "data_row (raw_row v) = Inr (derived_row v)"
  by (auto simp add: data_row_def raw_row_def derived_row_def column_def word_count_udf_def
      word_length_udf_def withColumn_def gt_lit_def drop_column_def fun_eq_iff)

lemma data_raw_data: "data (raw_data reviews) = Inr (map derived_row reviews)"
  unfolding data_def raw_data_def
  by (rule map_rows_map) (rule data_row_raw)

text \<open>
  C1. For every row of the raw dataset, the derived label column is true if and only if
  the row's integer rating is strictly greater than 3: \<open>data\<close> succeeds on the raw data
  and its label column is, row by row, the truth value of \<open>3 < rating\<close>.
\<close>

theorem label_iff_rating_gt_3:
  "\<exists>d. data (raw_data reviews) = Inr d \<and>
       map (\<lambda>r. r ''label'') d = map (\<lambda>v. Some (BoolC (3 < rating v))) reviews"
  by (simp add: data_raw_data derived_row_def comp_def)

section \<open>The assembled features\<close>

lemma assembled_row_derived:
  "assembled_row tokenize hashingTF (derived_row v) = Inr (featurized_row tokenize hashingTF v)"
  by (simp add: assembled_row_def Tokenizer_def HashingTF_def VectorAssembler_def
      feature_columns_array_def numFeatures_def column_def derived_row_def as_doubles_def
      featurized_row_def)

lemma assembledData_derived:
  "assembledData tokenize hashingTF (map derived_row reviews) =
     Inr (map (featurized_row tokenize hashingTF) reviews)"
  unfolding assembledData_def
  by (rule map_rows_map) (rule assembled_row_derived)

text \<open>
  C3. For every row, the assembled \<open>features\<close> vector is the hashed-token vector of the
  tokenized text followed by the two numeric features, in the order hashed text features,
  wordCount, wordLength; these are the values of the row's columns \<open>TextFeatures\<close>,
  \<open>wordCount\<close> (widened to double) and \<open>wordLength\<close>.
\<close>

theorem features_are_hashed_text_then_count_then_length:
  "\<exists>d a. data (raw_data reviews) = Inr d \<and> assembledData tokenize hashingTF d = Inr a \<and>
     map (\<lambda>r. r ''features'') a =
       map (\<lambda>v. Some (VecC (hashingTF 10000 (tokenize (review_text v)) @
              [Num (of_nat (word_count (review_text v))), word_length (review_text v)])))
         reviews \<and>
     map (\<lambda>r. (r ''TextFeatures'', r ''wordCount'', r ''wordLength'')) a =
       map (\<lambda>v. (Some (VecC (hashingTF 10000 (tokenize (review_text v)))),
                   Some (IntC (int (word_count (review_text v)))),
                   Some (DoubleC (word_length (review_text v))))) reviews"
  by (simp add: data_raw_data assembledData_derived featurized_row_def derived_row_def comp_def)

section \<open>Reading the data\<close>

text \<open>
  C5. The remote data file is downloaded exactly when no file with the expected name
  exists locally: the URL is fetched (once) if and only if \<open>isfile\<close> fails. If the file
  is present, nothing is fetched, the world is unchanged and the existing content is
  read. If nothing is at the path and the remote side serves the file, the content is
  stored under the expected name and read.
\<close>

theorem download_iff_file_absent:
  "fetched (snd (read_data remote w)) =
     (if isfile w dataFile then fetched w else fetched w @ [dataURL]) \<and>
   (\<forall>content. files w dataFile = Some (File content) \<longrightarrow>
      read_data remote w = (Inr content, w)) \<and>
   (\<forall>content. files w dataFile = None \<and> remote dataURL = Some content \<longrightarrow>
      read_data remote w =
        (Inr content,
         w\<lparr>files := (files w)(dataFile \<mapsto> File content), fetched := fetched w @ [dataURL]\<rparr>))"
  by (auto simp: read_data_def isfile_def urlretrieve_def read_csv_def Let_def
      split: option.splits node.splits)

theorem download_iff_file_absent_witness:
  "files \<lparr>files = [dataFile \<mapsto> File ''5 good''], fetched = []\<rparr> dataFile = Some (File ''5 good'') \<and>
   read_data (\<lambda>u. None) \<lparr>files = [dataFile \<mapsto> File ''5 good''], fetched = []\<rparr> =
     (Inr ''5 good'', \<lparr>files = [dataFile \<mapsto> File ''5 good''], fetched = []\<rparr>) \<and>
   files \<lparr>files = Map.empty, fetched = []\<rparr> dataFile = None \<and>
   [dataURL \<mapsto> ''1 bad''] dataURL = Some ''1 bad'' \<and>
   read_data [dataURL \<mapsto> ''1 bad''] \<lparr>files = Map.empty, fetched = []\<rparr> =
     (Inr ''1 bad'', \<lparr>files = [dataFile \<mapsto> File ''1 bad''], fetched = [dataURL]\<rparr>)"
  using download_iff_file_absent [of "\<lambda>u. None" "\<lparr>files = [dataFile \<mapsto> File ''5 good''], fetched = []\<rparr>"]
    download_iff_file_absent [of "[dataURL \<mapsto> ''1 bad'']" "\<lparr>files = Map.empty, fetched = []\<rparr>"]
  by simp

section \<open>Selecting the best model\<close>

lemma fit_loop_eq:
  "fit_loop L train test hs (ms, xs) =
     (ms @ map (\<lambda>h. lr_fit L h train) hs,
      xs @ map (\<lambda>h. test_metric L test (lr_fit L h train)) hs)"
  by (induction hs arbitrary: ms xs) (simp_all add: test_metric_def Let_def)

lemma py_max_eq: "xs \<noteq> [] \<Longrightarrow> py_max xs = Inr (Max (set xs))"
proof (cases xs)
  case Nil
  then show "xs \<noteq> [] \<Longrightarrow> ?thesis" by simp
next
  case (Cons x rest)
  have f: "(\<lambda>m y. if m < y then y else m) = (\<lambda>(m::rat) y. max y m)"
    by (auto simp: fun_eq_iff max_def)
  have "foldl (\<lambda>m y. if m < y then y else m) x rest = fold max rest x"
    unfolding f by (simp add: foldl_conv_fold)
  also have "\<dots> = Max (set (x # rest))"
    by (rule Max.set_eq_fold [symmetric])
  finally show ?thesis
    using Cons by (simp add: py_max_def)
qed

lemma py_index_first:
  "v \<in> set xs \<Longrightarrow>
   \<exists>i. py_index xs v = Inr i \<and> i < length xs \<and> xs ! i = v \<and> (\<forall>j<i. xs ! j \<noteq> v)"
proof (induction xs)
  case Nil
  then show ?case by simp
next
  case (Cons x xs)
  show ?case
  proof (cases "x = v")
    case True
    then show ?thesis by simp
  next
    case False
    with Cons.prems have "v \<in> set xs" by simp
    then obtain i where i: "py_index xs v = Inr i" "i < length xs" "xs ! i = v"
      "\<forall>j<i. xs ! j \<noteq> v"
      using Cons.IH by blast
    have "\<forall>j<Suc i. (x # xs) ! j \<noteq> v"
      using False i(4) by (auto simp: nth_Cons')
    with False i(1-3) show ?thesis by simp
  qed
qed

lemma best_index_first:
  assumes "metrics \<noteq> []"
  shows "\<exists>i. best_index metrics = Inr i \<and> i < length metrics \<and>
    metrics ! i = Max (set metrics) \<and> (\<forall>j<i. metrics ! j < Max (set metrics))"
proof -
  have "Max (set metrics) \<in> set metrics"
    using assms by (intro Max_in) simp_all
  then obtain i where i: "py_index metrics (Max (set metrics)) = Inr i" "i < length metrics"
    "metrics ! i = Max (set metrics)" "\<forall>j<i. metrics ! j \<noteq> Max (set metrics)"
    using py_index_first by blast
  have "metrics ! j < Max (set metrics)" if "j < i" for j
  proof -
    have "metrics ! j \<in> set metrics"
      using that i(2) by simp
    then have "metrics ! j \<le> Max (set metrics)"
      by simp
    with i(4) that show ?thesis by (simp add: less_le)
  qed
  with i show ?thesis
    by (auto simp: best_index_def py_max_eq [OF assms])
qed

lemma best_model_first:
  "\<exists>i. i < length lrHyperParams \<and>
     best_index (map (test_metric L test) (trained_models L train)) = Inr i \<and>
     best_model L train test = Inr (lr_fit L (lrHyperParams ! i) train) \<and>
     test_metric L test (lr_fit L (lrHyperParams ! i) train) =
       Max (test_metric L test ` set (trained_models L train)) \<and>
     (\<forall>j<i. test_metric L test (lr_fit L (lrHyperParams ! j) train) <
        test_metric L test (lr_fit L (lrHyperParams ! i) train))"
proof -
  let ?models = "trained_models L train"
  let ?metrics = "map (test_metric L test) ?models"
  have loop: "fit_loop L train test lrHyperParams ([], []) = (?models, ?metrics)"
    by (simp add: fit_loop_eq trained_models_def comp_def)
  have len: "length ?metrics = length lrHyperParams"
    by (simp add: trained_models_def)
  have "?metrics \<noteq> []"
    by (simp add: trained_models_def lrHyperParams_def)
  then obtain i where i: "best_index ?metrics = Inr i" "i < length ?metrics"
    "?metrics ! i = Max (set ?metrics)" "\<forall>j<i. ?metrics ! j < Max (set ?metrics)"
    using best_index_first by blast
  have nth: "?metrics ! j = test_metric L test (lr_fit L (lrHyperParams ! j) train)"
    if "j < length lrHyperParams" for j
    using that by (simp add: trained_models_def)
  have i_lt: "i < length lrHyperParams"
    using i(2) len by simp
  have "best_model L train test = Inr (?models ! i)"
    using i(1,2) by (simp add: best_model_def loop py_getitem_def)
  moreover have "?models ! i = lr_fit L (lrHyperParams ! i) train"
    using i_lt by (simp add: trained_models_def)
  ultimately have best: "best_model L train test = Inr (lr_fit L (lrHyperParams ! i) train)"
    by simp
  have top: "test_metric L test (lr_fit L (lrHyperParams ! i) train) =
      Max (test_metric L test ` set ?models)"
    using i(3) nth [OF i_lt] by simp
  have "test_metric L test (lr_fit L (lrHyperParams ! j) train) <
      test_metric L test (lr_fit L (lrHyperParams ! i) train)" if "j < i" for j
  proof -
    have "j < length lrHyperParams"
      using that i_lt by simp
    then have "?metrics ! j = test_metric L test (lr_fit L (lrHyperParams ! j) train)"
      by (rule nth)
    moreover have "?metrics ! j < Max (set ?metrics)"
      using i(4) that by blast
    ultimately show ?thesis
      using i(3) nth [OF i_lt] by simp
  qed
  with i_lt best top i(1) show ?thesis
    by blast
qed

lemma pyspark_path_best:
  "best_model L (train_of L p) (test_of L p) = Inr best \<Longrightarrow>
   pyspark_path L p \<sigma> =
     (\<sigma>\<lparr>saved := (saved \<sigma>)(''SparkMLExperiment.mmls'' \<mapsto> best),
        printed := printed \<sigma> @ [DoubleC (Num (evaluate L (transform L best (validation_of L p))))]\<rparr>,
      None)"
  by (cases "randomSplit L p [0.60, 0.20, 0.20] 123")
    (simp add: pyspark_path_def train_of_def test_of_def validation_of_def Let_def)

lemma mmlspark_path_eq:
  "mmlspark_path L M d \<tau> =
     (\<tau>\<lparr>saved := (saved \<tau>)(''MMLSExperiment.mmls'' \<mapsto> bestModel_of L M d),
        printed := printed \<tau> @
          [DoubleC (Num (auc M (bm_transform M (bestModel_of L M d) (validation_of L d))))]\<rparr>,
      None)"
  by (cases "randomSplit L d [0.60, 0.20, 0.20] 123")
    (simp add: mmlspark_path_def bestModel_of_def train_of_def test_of_def validation_of_def
      Let_def ComputeModelStatistics_def first_def getitem_def)

text \<open>
  C2. In the pyspark path the model selected as best is one of the trained
  logistic-regression models, and its AUC on the test split is the maximum of the AUCs of
  all trained models on that split; that model is the one saved and the one evaluated on
  the validation split.
\<close>

theorem best_model_has_maximal_test_auc:
  "\<exists>best. best_model L (train_of L p) (test_of L p) = Inr best \<and>
     best \<in> set (trained_models L (train_of L p)) \<and>
     test_metric L (test_of L p) best =
       Max (test_metric L (test_of L p) ` set (trained_models L (train_of L p))) \<and>
     pyspark_path L p \<sigma> =
       (\<sigma>\<lparr>saved := (saved \<sigma>)(''SparkMLExperiment.mmls'' \<mapsto> best),
          printed := printed \<sigma> @
            [DoubleC (Num (evaluate L (transform L best (validation_of L p))))]\<rparr>,
        None)"
proof -
  obtain i where i: "i < length lrHyperParams"
    "best_model L (train_of L p) (test_of L p) = Inr (lr_fit L (lrHyperParams ! i) (train_of L p))"
    "test_metric L (test_of L p) (lr_fit L (lrHyperParams ! i) (train_of L p)) =
       Max (test_metric L (test_of L p) ` set (trained_models L (train_of L p)))"
    using best_model_first [where L = L and train = "train_of L p" and test = "test_of L p"] by blast
  have "lr_fit L (lrHyperParams ! i) (train_of L p) \<in> set (trained_models L (train_of L p))"
    using i(1) by (simp add: trained_models_def)
  with i(2,3) pyspark_path_best [OF i(2)] show ?thesis
    by blast
qed

text \<open>
  C9. The selection is a function of the test metrics alone (\<open>best_index\<close> of their
  list), and among the models with the maximal test AUC it takes the one whose
  hyperparameter is earliest in \<open>lrHyperParams\<close>: every earlier model has a strictly
  smaller test AUC. That model is the one saved and evaluated.
\<close>

theorem ties_select_earliest_hyperparameter:
  "\<exists>i. i < length lrHyperParams \<and>
     best_index (map (test_metric L (test_of L p)) (trained_models L (train_of L p))) = Inr i \<and>
     best_model L (train_of L p) (test_of L p) =
       Inr (lr_fit L (lrHyperParams ! i) (train_of L p)) \<and>
     test_metric L (test_of L p) (lr_fit L (lrHyperParams ! i) (train_of L p)) =
       Max (test_metric L (test_of L p) ` set (trained_models L (train_of L p))) \<and>
     (\<forall>j<i. test_metric L (test_of L p) (lr_fit L (lrHyperParams ! j) (train_of L p)) <
        test_metric L (test_of L p) (lr_fit L (lrHyperParams ! i) (train_of L p))) \<and>
     pyspark_path L p \<sigma> =
       (\<sigma>\<lparr>saved := (saved \<sigma>)
            (''SparkMLExperiment.mmls'' \<mapsto> lr_fit L (lrHyperParams ! i) (train_of L p)),
          printed := printed \<sigma> @
            [DoubleC (Num (evaluate L
               (transform L (lr_fit L (lrHyperParams ! i) (train_of L p)) (validation_of L p))))]\<rparr>,
        None)"
proof -
  let ?train = "train_of L p" and ?test = "test_of L p"
  let ?metrics = "map (test_metric L ?test) (trained_models L ?train)"
  obtain i where i: "i < length lrHyperParams"
    "best_model L ?train ?test = Inr (lr_fit L (lrHyperParams ! i) ?train)"
    "test_metric L ?test (lr_fit L (lrHyperParams ! i) ?train) =
       Max (test_metric L ?test ` set (trained_models L ?train))"
    "\<forall>j<i. test_metric L ?test (lr_fit L (lrHyperParams ! j) ?train) <
        test_metric L ?test (lr_fit L (lrHyperParams ! i) ?train)"
    "best_index ?metrics = Inr i"
    using best_model_first [where L = L and train = ?train and test = ?test] by blast
  show ?thesis
    using i pyspark_path_best [OF i(2), of \<sigma>] by blast
qed

theorem ties_select_earliest_hyperparameter_witness:
  "best_model tie_example [] [] = Inr 0.1 \<and> lrHyperParams ! 1 = 0.1 \<and> lrHyperParams ! 2 = 0.2 \<and>
   test_metric tie_example [] 0.1 = test_metric tie_example [] 0.2 \<and>
   test_metric tie_example [] 0.05 < test_metric tie_example [] 0.1 \<and>
   fst (pyspark_path tie_example [] \<lparr>saved = Map.empty, printed = []\<rparr>) =
     \<lparr>saved = [''SparkMLExperiment.mmls'' \<mapsto> 0.1], printed = [DoubleC (Num 0.9)]\<rparr>"
  using ties_select_earliest_hyperparameter [of tie_example "[]" "\<lparr>saved = Map.empty, printed = []\<rparr>"]
  by (simp add: tie_example_def best_model_def lrHyperParams_def best_index_def py_max_def
      py_getitem_def test_metric_def pyspark_path_def Let_def)

section \<open>What the two paths leave behind\<close>

text \<open>
  C6. Each path ends without an exception and changes the session in exactly two ways:
  the selected best model is stored under the path's file name, replacing whatever was
  there, and one value is printed, the AUC of that model on the validation split.
\<close>

theorem outputs_are_saved_model_and_printed_auc:
  "(\<exists>best. best_model L (train_of L p) (test_of L p) = Inr best \<and>
      pyspark_path L p \<sigma> =
        (\<sigma>\<lparr>saved := (saved \<sigma>)(''SparkMLExperiment.mmls'' \<mapsto> best),
           printed := printed \<sigma> @
             [DoubleC (Num (evaluate L (transform L best (validation_of L p))))]\<rparr>,
         None)) \<and>
   mmlspark_path L M d \<tau> =
     (\<tau>\<lparr>saved := (saved \<tau>)(''MMLSExperiment.mmls'' \<mapsto> bestModel_of L M d),
        printed := printed \<tau> @
          [DoubleC (Num (auc M (bm_transform M (bestModel_of L M d) (validation_of L d))))]\<rparr>,
      None)"
proof -
  obtain i where
    b: "best_model L (train_of L p) (test_of L p) = Inr (lr_fit L (lrHyperParams ! i) (train_of L p))"
    using best_model_first [where L = L and train = "train_of L p" and test = "test_of L p"] by blast
  show ?thesis
    by (intro conjI exI, rule b, rule pyspark_path_best [OF b], rule mmlspark_path_eq)
qed

section \<open>Rounding to binary64\<close>

lemma bit_length_bounds:
  "0 < n \<Longrightarrow> 2 ^ (bit_length n - 1) \<le> n \<and> n < 2 ^ bit_length n"
proof (induction n rule: bit_length.induct)
  case (1 n)
  show ?case
  proof (cases "n div 2 = 0")
    case True
    with "1.prems" have "n = 1" by presburger
    moreover have "bit_length (Suc 0) = Suc 0"
      by (simp add: bit_length.simps [of "Suc 0"] bit_length.simps [of 0])
    ultimately show ?thesis
      by simp
  next
    case False
    then have pos: "0 < n div 2" by simp
    from "1.prems" have n0: "n \<noteq> 0" by simp
    let ?b = "bit_length (n div 2)"
    have IH: "2 ^ (?b - 1) \<le> n div 2 \<and> n div 2 < 2 ^ ?b"
      using "1.IH" [OF n0 pos] .
    have b: "bit_length n = Suc ?b"
      using n0 by (simp add: bit_length.simps [of n])
    have bpos: "0 < ?b"
      using pos by (simp add: bit_length.simps [of "n div 2"])
    then have "(2::nat) ^ ?b = 2 * 2 ^ (?b - 1)"
      by (cases ?b) simp_all
    with IH have "2 ^ ?b \<le> 2 * (n div 2)" by simp
    also have "\<dots> \<le> n" by presburger
    finally have lo: "2 ^ (bit_length n - 1) \<le> n"
      by (simp add: b)
    have "n < 2 * (n div 2 + 1)" by presburger
    also have "\<dots> \<le> 2 * 2 ^ ?b"
      using IH by simp
    finally have "n < 2 ^ bit_length n"
      by (simp add: b)
    with lo show ?thesis ..
  qed
qed

lemma bit_length_eq:
  assumes "2 ^ k \<le> n" "n < 2 ^ Suc k"
  shows "bit_length n = Suc k"
proof -
  have pos: "0 < n"
    using assms(1) by (metis gr0I not_le zero_less_numeral zero_less_power)
  let ?b = "bit_length n"
  have b: "2 ^ (?b - 1) \<le> n" "n < 2 ^ ?b"
    using bit_length_bounds [OF pos] by simp_all
  have "(2::nat) ^ (?b - 1) < 2 ^ Suc k"
    using b(1) assms(2) by (rule le_less_trans)
  then have "?b - 1 < Suc k"
    by (rule power_less_imp_less_exp [rotated]) simp
  moreover have "(2::nat) ^ k < 2 ^ ?b"
    using assms(1) b(2) by (rule le_less_trans)
  then have "k < ?b"
    by (rule power_less_imp_less_exp [rotated]) simp
  ultimately show ?thesis by simp
qed

lemma floor_bounds_pow:
  fixes q :: rat
  assumes "2 ^ k \<le> q" "q < 2 ^ Suc k"
  shows "2 ^ k \<le> nat \<lfloor>q\<rfloor>" "nat \<lfloor>q\<rfloor> < 2 ^ Suc k"
proof -
  have "(of_int (2 ^ k) :: rat) \<le> q"
    using assms(1) by simp
  then have lo: "(2::int) ^ k \<le> \<lfloor>q\<rfloor>"
    by (simp only: le_floor_iff)
  have "q < of_int (2 ^ Suc k)"
    using assms(2) by simp
  then have hi: "\<lfloor>q\<rfloor> < (2::int) ^ Suc k"
    by (simp only: floor_less_iff)
  have nonneg: "0 \<le> \<lfloor>q\<rfloor>"
    using lo by (meson order_trans zero_le_numeral zero_le_power)
  show "2 ^ k \<le> nat \<lfloor>q\<rfloor>"
    using lo nonneg by (simp add: le_nat_iff)
  show "nat \<lfloor>q\<rfloor> < 2 ^ Suc k"
    using hi nonneg by (simp add: nat_less_iff)
qed

lemma expo_eq:
  assumes "2 ^ k \<le> q" "q < 2 ^ Suc k"
  shows "expo q = int k"
proof -
  have "(1::rat) \<le> 2 ^ k" by simp
  then have "1 \<le> q" using assms(1) by (rule order_trans)
  moreover have "bit_length (nat \<lfloor>q\<rfloor>) = Suc k"
    using floor_bounds_pow [OF assms] by (rule bit_length_eq)
  ultimately show ?thesis
    by (simp add: expo_def)
qed

lemma expo_bounds:
  assumes "1 \<le> q"
  shows "\<exists>k. expo q = int k \<and> 2 ^ k \<le> q \<and> q < 2 ^ Suc k"
proof -
  let ?n = "nat \<lfloor>q\<rfloor>"
  have fl: "1 \<le> \<lfloor>q\<rfloor>"
    using assms by (simp add: le_floor_iff)
  then have pos: "0 < ?n" by simp
  let ?b = "bit_length ?n"
  have b: "2 ^ (?b - 1) \<le> ?n" "?n < 2 ^ ?b"
    using bit_length_bounds [OF pos] by simp_all
  have bpos: "0 < ?b"
    using pos by (simp add: bit_length.simps [of ?n])
  have "(of_nat (2 ^ (?b - 1)) :: rat) \<le> of_nat ?n"
    using b(1) by (simp only: of_nat_le_iff)
  also have "(of_nat ?n :: rat) = of_int \<lfloor>q\<rfloor>"
    using fl by simp
  also have "\<dots> \<le> q" by simp
  finally have lo: "2 ^ (?b - 1) \<le> q" by simp
  have "q < of_int \<lfloor>q\<rfloor> + 1"
    using floor_correct [of q] by simp
  also have "of_int \<lfloor>q\<rfloor> + 1 = (of_nat (Suc ?n) :: rat)"
    using fl by simp
  also have "\<dots> \<le> of_nat (2 ^ ?b)"
    using b(2) by (simp only: of_nat_le_iff Suc_le_eq)
  finally have hi: "q < 2 ^ Suc (?b - 1)"
    using bpos by simp
  have "expo q = int (?b - 1)"
    using assms bpos by (simp add: expo_def of_nat_diff)
  with lo hi show ?thesis by blast
qed

lemma expo_correct:
  assumes "0 < q"
  shows "2 powi (expo q) \<le> q \<and> q < 2 powi (expo q + 1)"
proof (cases "1 \<le> q")
  case True
  then obtain k where k: "expo q = int k" "2 ^ k \<le> q" "q < 2 ^ Suc k"
    using expo_bounds by blast
  have "int k + 1 = int (Suc k)" by simp
  then have "(2::rat) powi (int k + 1) = 2 ^ Suc k"
    by (simp only: power_int_of_nat)
  with k show ?thesis by simp
next
  case False
  define r where "r = 1 / q"
  have r1: "1 \<le> r"
    using False assms by (simp add: r_def le_divide_eq)
  obtain k where k: "expo r = int k" "2 ^ k \<le> r" "r < 2 ^ Suc k"
    using expo_bounds [OF r1] by blast
  have j: "int (bit_length (nat \<lfloor>1 / q\<rfloor>)) - 1 = int k"
    using k(1) r1 by (simp add: expo_def r_def)
  have e: "expo q = (if q * 2 ^ k = 1 then - int k else - int k - 1)"
    using False by (simp add: expo_def j Let_def)
  have up: "q * 2 ^ k \<le> 1"
    using k(2) assms by (simp add: r_def field_simps)
  have lo: "1 < q * 2 ^ Suc k"
    using k(3) assms by (simp add: r_def field_simps)
  have p1: "(2::rat) powi (- int k) = 1 / 2 ^ k"
    by (simp add: power_int_minus field_simps)
  have p2: "(2::rat) powi (- int k - 1) = 1 / 2 ^ Suc k"
  proof -
    have "- int k - 1 = - int (Suc k)" by simp
    then show ?thesis
      by (simp only: power_int_minus power_int_of_nat inverse_eq_divide)
  qed
  have p3: "(2::rat) powi (1 - int k) = 2 / 2 ^ k"
  proof -
    have "(2::rat) powi (1 - int k) = 2 powi 1 / 2 powi (int k)"
      by (rule power_int_diff) simp
    then show ?thesis by simp
  qed
  show ?thesis
  proof (cases "q * 2 ^ k = 1")
    case True
    then have "q = 1 / 2 ^ k"
      by (simp add: field_simps)
    moreover have "(1::rat) / 2 ^ k < 2 / 2 ^ k"
      by (simp add: divide_strict_right_mono)
    ultimately show ?thesis
      using e True by (simp add: p1 p3)
  next
    case ne: False
    with up have "q * 2 ^ k < 1" by simp
    then have "q < 1 / 2 ^ k"
      by (simp add: field_simps)
    moreover have "1 / 2 ^ Suc k < q"
      using lo by (simp add: field_simps)
    ultimately show ?thesis
      using e ne by (simp add: p1 p2)
  qed
qed

lemma round_half_even_error: "\<bar>of_int (round_half_even q) - q\<bar> \<le> 1 / 2"
proof -
  define f where "f = \<lfloor>q\<rfloor>"
  have b: "of_int f \<le> q" "q < of_int f + 1"
    unfolding f_def using floor_correct [of q] by simp_all
  have r: "round_half_even q =
      (if q - of_int f < 1 / 2 then f else if 1 / 2 < q - of_int f then f + 1
       else if even f then f else f + 1)"
    by (simp add: round_half_even_def Let_def f_def)
  show ?thesis
    unfolding r using b by (simp add: abs_if)
qed

lemma round_half_even_eq:
  assumes "\<bar>q - of_int m\<bar> < 1 / 2"
  shows "round_half_even q = m"
proof -
  have e: "\<bar>of_int (round_half_even q) - q\<bar> \<le> 1 / 2"
    by (rule round_half_even_error)
  have "\<bar>(of_int (round_half_even q) :: rat) - of_int m\<bar> < 1"
    using assms e by linarith
  then have "\<bar>(of_int (round_half_even q - m) :: rat)\<bar> < of_int 1"
    by simp
  then have "\<bar>round_half_even q - m\<bar> < 1"
    by (simp only: of_int_abs [symmetric] of_int_less_iff)
  then show ?thesis by simp
qed

lemma binary64_normal:
  assumes "2 ^ k \<le> q" "q < 2 ^ Suc k"
  shows "binary64 q = of_int (round_half_even (q * 2 ^ 52 / 2 ^ k)) * 2 ^ k / 2 ^ 52"
proof -
  have "(0::rat) < 2 ^ k" by simp
  then have pos: "0 < q" using assms(1) by (rule less_le_trans)
  then have absq: "\<bar>q\<bar> = q" by simp
  have e: "expo q = int k"
    using assms by (rule expo_eq)
  have "(2::rat) powi (int k - 52) = 2 powi (int k) / 2 powi 52"
    by (rule power_int_diff) simp
  then have ulp: "(2::rat) powi (int k - 52) = 2 ^ k / 2 ^ 52"
    by simp
  have qu: "q / (2 ^ k / 2 ^ 52) = q * 2 ^ 52 / 2 ^ k"
    by simp
  have "binary64 q =
      of_int (round_half_even (q / 2 powi (expo \<bar>q\<bar> - 52))) * 2 powi (expo \<bar>q\<bar> - 52)"
    using pos by (simp add: binary64_def Let_def)
  also have "\<dots> = of_int (round_half_even (q / (2 ^ k / 2 ^ 52))) * (2 ^ k / 2 ^ 52)"
    by (simp only: absq e ulp)
  also have "\<dots> = of_int (round_half_even (q * 2 ^ 52 / 2 ^ k)) * (2 ^ k / 2 ^ 52)"
    by (simp only: qu)
  finally show ?thesis
    by (simp only: times_divide_eq_right)
qed

lemma binary64_eq:
  assumes "2 ^ k \<le> q" "q < 2 ^ Suc k" "\<bar>q * 2 ^ 52 / 2 ^ k - of_int m\<bar> < 1 / 2"
  shows "binary64 q = of_int m * 2 ^ k / 2 ^ 52"
  using binary64_normal [OF assms(1,2)] round_half_even_eq [OF assms(3)] by simp

lemma binary64_error:
  assumes "1 \<le> q"
  shows "\<bar>binary64 q - q\<bar> \<le> q / 2 ^ 53"
proof -
  obtain k where k: "2 ^ k \<le> q" "q < 2 ^ Suc k"
    using expo_bounds [OF assms] by blast
  define u :: rat where "u = 2 ^ k / 2 ^ 52"
  define m where "m = round_half_even (q / u)"
  have upos: "0 < u" by (simp add: u_def)
  have qu: "q / u = q * 2 ^ 52 / 2 ^ k"
    by (simp add: u_def)
  have b: "binary64 q = of_int m * u"
    using binary64_normal [OF k] by (simp add: m_def qu u_def)
  have "\<bar>of_int m - q / u\<bar> \<le> 1 / 2"
    unfolding m_def by (rule round_half_even_error)
  then have "\<bar>of_int m - q / u\<bar> * u \<le> 1 / 2 * u"
    using upos by (simp only: mult_le_cancel_right_pos)
  moreover have "\<bar>of_int m - q / u\<bar> * u = \<bar>of_int m * u - q\<bar>"
  proof -
    have "\<bar>of_int m - q / u\<bar> * u = \<bar>(of_int m - q / u) * u\<bar>"
      using upos by (simp add: abs_mult)
    also have "(of_int m - q / u) * u = of_int m * u - q"
      using upos by (simp add: algebra_simps)
    finally show ?thesis .
  qed
  moreover have "1 / 2 * u \<le> q / 2 ^ 53"
  proof -
    have "1 / 2 * u = 2 ^ k / 2 ^ 53"
      by (simp add: u_def)
    also have "\<dots> \<le> q / 2 ^ 53"
      using k(1) by (simp add: divide_right_mono)
    finally show ?thesis .
  qed
  ultimately show ?thesis
    unfolding b by linarith
qed

lemma binary64_107_40: "binary64 (107 / 40) = 6023564501608038 / 2 ^ 51"
  using binary64_eq [of 1 "107 / 40" 6023564501608038] by simp

lemma binary64_3_2: "binary64 (3 / 2) = 3 / 2"
  using binary64_eq [of 0 "3 / 2" 6755399441055744] by simp

section \<open>The mean word length\<close>

lemma str_split_nonempty: "w \<in> set (str_split s) \<Longrightarrow> w \<noteq> []"
proof (induction s rule: str_split.induct)
  case (1 s)
  show ?case
  proof (cases "dropWhile isspace s")
    case Nil
    then have "str_split s = []" by (rule str_split_unfold_Nil)
    with "1.prems" show ?thesis by simp
  next
    case (Cons c cs)
    then have "str_split s = (c # takeWhile nonspace cs) # str_split (dropWhile nonspace cs)"
      by (rule str_split_unfold_Cons)
    with "1.prems" "1.IH" [OF Cons] show ?thesis by auto
  qed
qed

lemma str_split_Nil_iff: "str_split s = [] \<longleftrightarrow> (\<forall>c\<in>set s. isspace c)"
proof (cases "dropWhile isspace s")
  case Nil
  then have "str_split s = []" by (rule str_split_unfold_Nil)
  moreover from Nil have "\<forall>c\<in>set s. isspace c"
    by (simp add: dropWhile_eq_Nil_conv)
  ultimately show ?thesis by simp
next
  case (Cons c cs)
  then have "str_split s \<noteq> []"
    by (simp add: str_split_unfold_Cons)
  moreover have "\<not> (\<forall>c\<in>set s. isspace c)"
    using Cons by (metis dropWhile_eq_Nil_conv list.distinct(1))
  ultimately show ?thesis by simp
qed

lemma length_le_sum_lengths:
  "\<forall>w\<in>set ws. w \<noteq> [] \<Longrightarrow> length ws \<le> sum_list (map length ws)"
proof (induction ws)
  case Nil
  then show ?case by simp
next
  case (Cons w ws)
  then have "1 \<le> length w" by (cases w) simp_all
  with Cons show ?case by simp
qed

lemma mean_word_length_ge_1:
  assumes "str_split s \<noteq> []"
  shows "1 \<le> mean_word_length s"
proof -
  let ?ws = "str_split s"
  have "length ?ws \<le> sum_list (map length ?ws)"
    by (rule length_le_sum_lengths) (simp add: str_split_nonempty)
  then have "(of_nat (length ?ws) :: rat) \<le> of_nat (sum_list (map length ?ws))"
    by (simp only: of_nat_le_iff)
  moreover have "(0::rat) < of_nat (length ?ws)"
    using assms by simp
  ultimately show ?thesis
    unfolding mean_word_length_def by (simp add: le_divide_eq)
qed

lemma word_length_words:
  assumes "str_split s \<noteq> []"
  shows "word_length s =
    Num (binary64 (of_int (round_half_even (binary64 (mean_word_length s) * 100)) / 100))"
  using assms by (simp add: word_length_def np_mean_def py_round_def mean_word_length_def Let_def)

lemma word_length_no_words:
  assumes "str_split s = []"
  shows "word_length s = NaN"
  using assms by (simp add: word_length_def np_mean_def py_round_def)

lemma hundred_binary64_mean:
  assumes "str_split s \<noteq> []"
  shows "\<bar>binary64 (mean_word_length s) * 100 - 100 * mean_word_length s\<bar>
    \<le> 100 * mean_word_length s / 2 ^ 53"
proof -
  let ?\<mu> = "mean_word_length s"
  have "\<bar>binary64 ?\<mu> - ?\<mu>\<bar> \<le> ?\<mu> / 2 ^ 53"
    using mean_word_length_ge_1 [OF assms] by (rule binary64_error)
  then have "100 * \<bar>binary64 ?\<mu> - ?\<mu>\<bar> \<le> 100 * (?\<mu> / 2 ^ 53)"
    by (simp only: mult_le_cancel_left_pos zero_less_numeral)
  moreover have "100 * \<bar>binary64 ?\<mu> - ?\<mu>\<bar> = \<bar>binary64 ?\<mu> * 100 - 100 * ?\<mu>\<bar>"
    by (simp add: abs_if)
  ultimately show ?thesis by simp
qed

text \<open>
  C8, as amended. For every review text with at least one whitespace-separated word,
  wordLength is the binary64 quotient of the total word length by the number of words,
  rounded to two decimals from its exact binary value with ties to even, as the nearest
  binary64. The quotient is within \<open>mean / 2 ^ 53\<close> of the exact mean of the word
  lengths, so wordLength is a two-decimal value within 0.005 plus that error of the exact
  mean, and it is the exact mean rounded to two decimals (ties to even), as a binary64,
  whenever 100 times the mean is farther than \<open>100 * mean / 2 ^ 53\<close> from a rounding tie.
\<close>

theorem word_length_is_rounded_binary64_mean:
  assumes "str_split s \<noteq> []"
  shows "word_length s = Num (binary64 (round_2dp (binary64 (mean_word_length s)))) \<and>
         \<bar>binary64 (mean_word_length s) - mean_word_length s\<bar>
           \<le> mean_word_length s / 2 ^ 53 \<and>
         \<bar>round_2dp (binary64 (mean_word_length s)) - mean_word_length s\<bar>
           \<le> 1 / 200 + mean_word_length s / 2 ^ 53 \<and>
         (\<bar>100 * mean_word_length s - of_int (round_half_even (100 * mean_word_length s))\<bar>
            + 100 * mean_word_length s / 2 ^ 53 < 1 / 2 \<longrightarrow>
          word_length s = Num (binary64 (round_2dp (mean_word_length s))))"
proof (intro conjI)
  let ?\<mu> = "mean_word_length s"
  let ?x = "binary64 ?\<mu>"
  let ?d = "round_half_even (?x * 100)"
  have comm: "100 * ?x = ?x * 100"
    by simp
  have wl: "word_length s = Num (binary64 (of_int ?d / 100))"
    using assms by (rule word_length_words)
  then show exact: "word_length s = Num (binary64 (round_2dp ?x))"
    by (simp only: round_2dp_def comm)
  show err: "\<bar>?x - ?\<mu>\<bar> \<le> ?\<mu> / 2 ^ 53"
    using mean_word_length_ge_1 [OF assms] by (rule binary64_error)
  have close: "\<bar>?x * 100 - 100 * ?\<mu>\<bar> \<le> 100 * ?\<mu> / 2 ^ 53"
    using assms by (rule hundred_binary64_mean)
  have half: "\<bar>of_int ?d - ?x * 100\<bar> \<le> 1 / 2"
    by (rule round_half_even_error)
  have "\<bar>of_int ?d / 100 - ?x\<bar> \<le> 1 / 200"
    using half by (simp add: abs_if field_simps split: if_splits)
  then have "\<bar>of_int ?d / 100 - ?\<mu>\<bar> \<le> 1 / 200 + ?\<mu> / 2 ^ 53"
    using err by linarith
  then show "\<bar>round_2dp ?x - ?\<mu>\<bar> \<le> 1 / 200 + ?\<mu> / 2 ^ 53"
    by (simp only: round_2dp_def comm)
  show "\<bar>100 * ?\<mu> - of_int (round_half_even (100 * ?\<mu>))\<bar> + 100 * ?\<mu> / 2 ^ 53 < 1 / 2 \<longrightarrow>
      word_length s = Num (binary64 (round_2dp ?\<mu>))"
  proof
    assume far: "\<bar>100 * ?\<mu> - of_int (round_half_even (100 * ?\<mu>))\<bar> + 100 * ?\<mu> / 2 ^ 53 < 1 / 2"
    with close have "\<bar>?x * 100 - of_int (round_half_even (100 * ?\<mu>))\<bar> < 1 / 2"
      by linarith
    then have "?d = round_half_even (100 * ?\<mu>)"
      by (rule round_half_even_eq)
    with wl show "word_length s = Num (binary64 (round_2dp ?\<mu>))"
      by (simp add: round_2dp_def)
  qed
qed

lemma tie_review_words:
  "length (str_split tie_review) = 40 \<and> sum_list (map length (str_split tie_review)) = 107"
  by (simp add: tie_review_def str_def isspace_def)

lemma tie_review_mean: "mean_word_length tie_review = 107 / 40"
  using tie_review_words by (simp add: mean_word_length_def)

lemma tie_review_split: "str_split tie_review \<noteq> []"
  using tie_review_words by auto

lemma binary64_267_100: "binary64 (267 / 100) = 6012305502539612 / 2 ^ 51"
  using binary64_eq [of 1 "267 / 100" 6012305502539612] by simp

lemma binary64_67_25: "binary64 (67 / 25) = 6034823500676465 / 2 ^ 51"
  using binary64_eq [of 1 "67 / 25" 6034823500676465] by simp

lemma round_half_even_tie:
  assumes "q = of_int f + 1 / 2"
  shows "round_half_even q = (if even f then f else f + 1)"
proof -
  have "\<lfloor>q\<rfloor> = f"
    by (rule floor_unique) (simp_all add: assms)
  then show ?thesis
    by (simp add: round_half_even_def Let_def assms)
qed

lemma tie_review_word_length: "word_length tie_review = Num (binary64 (267 / 100))"
proof -
  have "round_half_even (binary64 (107 / 40) * 100) = 267"
    by (rule round_half_even_eq) (simp add: binary64_107_40)
  then show ?thesis
    by (simp add: word_length_words [OF tie_review_split] tie_review_mean)
qed

lemma round_2dp_107_40: "round_2dp (107 / 40) = 67 / 25"
  using round_half_even_tie [of "100 * (107 / 40)" 267] by (simp add: round_2dp_def)

lemma round_2dp_half_up_107_40: "round_2dp_half_up (107 / 40) = 67 / 25"
  by (simp add: round_2dp_half_up_def)

lemma binary64_9_8: "binary64 (9 / 8) = 9 / 8"
  using binary64_eq [of 0 "9 / 8" 5066549580791808] by simp

lemma binary64_28_25: "binary64 (28 / 25) = 5044031582654956 / 2 ^ 52"
  using binary64_eq [of 0 "28 / 25" 5044031582654956] by simp

lemma round_2dp_9_8: "round_2dp (9 / 8) = 28 / 25"
  using round_half_even_tie [of "100 * (9 / 8)" 112] by (simp add: round_2dp_def)

text \<open>
  The hypotheses hold for the review \<open>a bc\<close>: its mean word length is 1.5, far from a
  tie, and wordLength is 1.5. The review \<open>a b c d e f g hh\<close> has a mean of exactly
  1.125, a tie that binary64 holds exactly, and wordLength is the binary64 nearest to
  1.12, the even neighbour.
\<close>

theorem word_length_is_rounded_binary64_mean_witness:
  "str_split (str ''a bc'') \<noteq> [] \<and>
   mean_word_length (str ''a bc'') = 3 / 2 \<and>
   \<bar>100 * mean_word_length (str ''a bc'')
      - of_int (round_half_even (100 * mean_word_length (str ''a bc'')))\<bar>
     + 100 * mean_word_length (str ''a bc'') / 2 ^ 53 < 1 / 2 \<and>
   word_length (str ''a bc'') = Num (3 / 2) \<and>
   str_split (str ''a b c d e f g hh'') \<noteq> [] \<and>
   mean_word_length (str ''a b c d e f g hh'') = 9 / 8 \<and>
   word_length (str ''a b c d e f g hh'') = Num (binary64 (112 / 100)) \<and>
   word_length (str ''a b c d e f g hh'') = Num (5044031582654956 / 2 ^ 52)"
proof -
  have w: "str_split (str ''a bc'') \<noteq> []"
    by (simp add: str_def isspace_def)
  have m: "mean_word_length (str ''a bc'') = 3 / 2"
    by (simp add: mean_word_length_def str_def isspace_def)
  have r: "round_half_even 150 = 150"
    by (simp add: round_half_even_def)
  have far: "\<bar>100 * mean_word_length (str ''a bc'')
      - of_int (round_half_even (100 * mean_word_length (str ''a bc'')))\<bar>
     + 100 * mean_word_length (str ''a bc'') / 2 ^ 53 < 1 / 2"
    by (simp add: m r)
  have "word_length (str ''a bc'') = Num (binary64 (round_2dp (mean_word_length (str ''a bc''))))"
    using word_length_is_rounded_binary64_mean [OF w] far by blast
  then have v: "word_length (str ''a bc'') = Num (3 / 2)"
    by (simp add: m round_2dp_def r binary64_3_2)
  have w2: "str_split (str ''a b c d e f g hh'') \<noteq> []"
    by (simp add: str_def isspace_def)
  have m2: "mean_word_length (str ''a b c d e f g hh'') = 9 / 8"
    by (simp add: mean_word_length_def str_def isspace_def)
  have "word_length (str ''a b c d e f g hh'') =
      Num (binary64 (round_2dp (binary64 (mean_word_length (str ''a b c d e f g hh'')))))"
    using word_length_is_rounded_binary64_mean [OF w2] by blast
  then have v2: "word_length (str ''a b c d e f g hh'') = Num (binary64 (28 / 25))"
    by (simp only: m2 binary64_9_8 round_2dp_9_8)
  then have v3: "word_length (str ''a b c d e f g hh'') = Num (5044031582654956 / 2 ^ 52)"
    by (simp only: binary64_28_25)
  have "(112::rat) / 100 = 28 / 25" by simp
  with w m far v w2 m2 v2 v3 show ?thesis
    by (simp only: simp_thms)
qed

text \<open>
  C8 as stated fails on \<open>tie_review\<close>: the exact mean is 2.675, which rounds to 2.68 to
  two decimals under either tie rule, but the binary64 quotient 107 / 40 lies below 2.675
  and wordLength is the binary64 nearest to 2.67, which is neither 2.68 nor the binary64
  nearest to 2.68.
\<close>

theorem word_length_tie_counterexample:
  "str_split tie_review \<noteq> [] \<and>
   mean_word_length tie_review = 107 / 40 \<and>
   round_2dp (mean_word_length tie_review) = 268 / 100 \<and>
   round_2dp_half_up (mean_word_length tie_review) = 268 / 100 \<and>
   word_length tie_review = Num (binary64 (267 / 100)) \<and>
   word_length tie_review \<noteq> Num (round_2dp (mean_word_length tie_review)) \<and>
   word_length tie_review \<noteq> Num (binary64 (round_2dp (mean_word_length tie_review)))"
  by (simp add: tie_review_split tie_review_mean tie_review_word_length round_2dp_107_40
      round_2dp_half_up_107_40 binary64_267_100 binary64_67_25)

section \<open>Texts without words\<close>

text \<open>
  C10. For a review whose text has no whitespace-separated word (empty or whitespace
  only), \<open>word_count\<close> is 0 and \<open>word_length\<close>, the rounded mean of an empty list, is
  NaN, so the wordLength column of its row holds no number; for every other text
  \<open>word_length\<close> is a number. The derivation of the features is thus not total over all
  strings.
\<close>

theorem no_words_gives_nan:
  "((\<forall>c\<in>set (review_text v). isspace c) \<longrightarrow>
      word_count (review_text v) = 0 \<and> word_length (review_text v) = NaN \<and>
      (\<exists>r. data_row (raw_row v) = Inr r \<and> r ''wordCount'' = Some (IntC 0) \<and>
           r ''wordLength'' = Some (DoubleC NaN))) \<and>
   ((\<exists>c\<in>set (review_text v). nonspace c) \<longrightarrow>
      0 < word_count (review_text v) \<and> (\<exists>y. word_length (review_text v) = Num y))"
proof (intro conjI impI)
  assume "\<forall>c\<in>set (review_text v). isspace c"
  then have e: "str_split (review_text v) = []"
    by (simp add: str_split_Nil_iff)
  then show "word_count (review_text v) = 0"
    by (simp add: word_count_def)
  from e show nan: "word_length (review_text v) = NaN"
    by (rule word_length_no_words)
  show "\<exists>r. data_row (raw_row v) = Inr r \<and> r ''wordCount'' = Some (IntC 0) \<and>
      r ''wordLength'' = Some (DoubleC NaN)"
    using e nan by (simp add: data_row_raw derived_row_def word_count_def)
next
  assume "\<exists>c\<in>set (review_text v). nonspace c"
  then have ne: "str_split (review_text v) \<noteq> []"
    by (simp add: str_split_Nil_iff)
  then show "0 < word_count (review_text v)"
    by (simp add: word_count_def)
  show "\<exists>y. word_length (review_text v) = Num y"
    using word_length_words [OF ne] by blast
qed

theorem no_words_gives_nan_witness:
  "list_all isspace (review_text \<lparr>rating = 5, review_text = str ''   ''\<rparr>) \<and>
   word_count (str ''   '') = 0 \<and> word_length (str ''   '') = NaN \<and>
   data_row (raw_row \<lparr>rating = 5, review_text = str ''   ''\<rparr>) =
     Inr [''text'' \<mapsto> StrC (str ''   ''), ''wordCount'' \<mapsto> IntC 0,
          ''wordLength'' \<mapsto> DoubleC NaN, ''label'' \<mapsto> BoolC True] \<and>
   (\<exists>c\<in>set (review_text \<lparr>rating = 1, review_text = str ''a''\<rparr>). nonspace c) \<and>
   word_count (str ''a'') = 1"
  using no_words_gives_nan [of "\<lparr>rating = 5, review_text = str ''   ''\<rparr>"]
    no_words_gives_nan [of "\<lparr>rating = 1, review_text = str ''a''\<rparr>"]
  by (simp add: str_def isspace_def data_row_raw derived_row_def word_count_def)

end
